theory Spec2Isabelle
  imports Main
begin

section \<open>The mobile IPC transport (class MobileIpcTransport)\<close>

text \<open>
  The class tunnels IPC envelopes through the mobile RPC channel: an outbound envelope is
  wrapped as a pseudo RPC request (towards the backend) or as a pseudo RPC fulfillment
  (towards the frontend), both addressed to the reserved interface name \<open>__ipc__\<close>;
  an inbound request or fulfillment carrying that name is unwrapped and handed to every
  registered listener.

  The embedding follows the TypeScript source method by method. Mutation of the instance
  is explicit state passing, a thrown exception or a rejected promise is the \<open>Inl\<close>
  of a sum, and the \<open>for ... of\<close> loop of \<open>broadcast\<close>, which may run forever when
  listeners keep registering listeners, is a partial function whose value \<open>None\<close>
  stands for a dispatch that never returns.
\<close>

subsection \<open>Envelopes and JavaScript values\<close>

datatype error = SerializationError | TypeError

text \<open>
  Modelled from the spec: the enumeration \<open>IpcWebSocketMessageType\<close> and the interface
  \<open>IpcWebSocketMessage\<close> are imported by the source and declared elsewhere. The four
  members of the enumeration are the ones \<open>send\<close> tests for. A TypeScript enumeration is
  a number at run time, so a message can carry a tag that is none of the four:
  \<open>Unlisted n\<close> stands for such a tag. Of an envelope the source reads \<open>type\<close> and
  \<open>channel\<close>; the spec adds the opaque \<open>payload\<close>.
\<close>

datatype IpcWebSocketMessageType = Send | Push | Invoke | Response | Unlisted nat

record 'p IpcWebSocketMessage =
  type :: IpcWebSocketMessageType
  channel :: string
  payload :: 'p

text \<open>
  What the marshaling layer hands back is an untyped JavaScript value; the casts
  \<open>as IpcWebSocketMessage\<close> of the source check nothing at run time. The values that
  matter here are an envelope, an array of values and \<open>undefined\<close>.
\<close>

datatype 'p val = Undefined | Message "'p IpcWebSocketMessage" | Array "'p val list"

text \<open>
  The expression \<open>v[0]\<close>: the first element of an array, \<open>undefined\<close> when the array is
  empty or when \<open>v\<close> is an object without a property \<open>0\<close>, and a thrown \<open>TypeError\<close>
  when \<open>v\<close> is \<open>undefined\<close>.
\<close>

fun index0 :: "'p val \<Rightarrow> error + 'p val" where
  "index0 Undefined = Inl TypeError"
| "index0 (Message m) = Inr Undefined"
| "index0 (Array []) = Inr Undefined"
| "index0 (Array (v # vs)) = Inr v"

subsection \<open>RPC requests and fulfillments\<close>

definition IPC :: string where
  "IPC = ''__ipc__''"

text \<open>
  Modelled from the spec: the types \<open>SerializedRpcRequest\<close> and
  \<open>RpcRequestFulfillment\<close> are imported by the source and declared elsewhere. The
  records have the fields that the source reads (\<open>operation.interfaceDefinition\<close>,
  \<open>parameters\<close>, \<open>interfaceName\<close>, \<open>result\<close>) or writes (the five fields of the
  fulfillment built in \<open>sendToFrontend\<close>), and \<open>operationName\<close> from the spec. A
  marshaled value has the type \<open>'w\<close>. The field \<open>id\<close> is written \<open>id'\<close>.
\<close>

record SerializedRpcOperation =
  interfaceDefinition :: string
  operationName :: string

record 'w SerializedRpcRequest =
  operation :: SerializedRpcOperation
  parameters :: 'w

record ('p, 'w) RpcRequestFulfillment =
  result :: 'w
  rawResult :: "'p val"
  interfaceName :: string
  id' :: string
  status :: int

datatype ('p, 'w) wire =
  WireRequest "'w SerializedRpcRequest"
| WireFulfillment "('p, 'w) RpcRequestFulfillment"

text \<open>The static members of class \<open>IpcInterface\<close>.\<close>

definition IpcInterface_interfaceName :: string where
  "IpcInterface_interfaceName = IPC"

definition IpcInterface_interfaceVersion :: string where
  "IpcInterface_interfaceVersion = ''0.0.0''"

subsection \<open>The collaborators: marshaling and protocol codec\<close>

text \<open>
  Modelled from the spec: \<open>RpcMarshaling\<close> and \<open>MobileRpcProtocol\<close> are imported by
  the source and declared elsewhere. They are parameters of the model: \<open>serialize\<close> and
  \<open>deserialize\<close> are \<open>RpcMarshaling.serialize(protocol, _)\<close> and
  \<open>RpcMarshaling.deserialize(protocol, _)\<close>, either of which may throw; \<open>encode\<close>
  and \<open>decode\<close> are the protocol codec between a logical request or fulfillment and the
  bytes \<open>'b\<close> of the channel.
\<close>

record ('p, 'w, 'b) MobileRpcProtocol =
  serialize :: "'p val \<Rightarrow> error + 'w"
  deserialize :: "'w \<Rightarrow> error + 'p val"
  encode :: "('p, 'w) wire \<Rightarrow> 'b"
  decode :: "'b \<Rightarrow> ('p, 'w) wire option"

text \<open>
  Modelled from the spec: class \<open>MobileRpcRequest\<close> and the static methods
  \<open>MobileRpcProtocol.encodeRequest\<close> and \<open>MobileRpcProtocol.encodeResponse\<close> are
  missing from the sources. A request object holds the client's interface (here its name),
  the operation name and the unmarshaled argument list. Encoding a request marshals the
  argument list, addresses the serialized request to the client's interface name and hands
  it to the protocol codec; encoding a fulfillment hands it to the protocol codec as it is.
\<close>

datatype 'p MobileRpcRequest = MobileRpcRequest string string "'p val list"

fun encodeRequest ::
  "('p, 'w, 'b) MobileRpcProtocol \<Rightarrow> 'p MobileRpcRequest \<Rightarrow> error + 'b" where
  "encodeRequest protocol (MobileRpcRequest client operationName' parameters') =
     (case serialize protocol (Array parameters') of
        Inl err \<Rightarrow> Inl err
      | Inr w \<Rightarrow>
          Inr (encode protocol (WireRequest
            \<lparr>operation = \<lparr>interfaceDefinition = client, operationName = operationName'\<rparr>,
             parameters = w\<rparr>)))"

definition encodeResponse ::
  "('p, 'w, 'b) MobileRpcProtocol \<Rightarrow> ('p, 'w) RpcRequestFulfillment \<Rightarrow> 'b" where
  "encodeResponse protocol fulfillment = encode protocol (WireFulfillment fulfillment)"

subsection \<open>The transport instance and its listeners\<close>

text \<open>
  A listener is a JavaScript function. It is named here by a number, and the table
  \<open>handlers\<close> gives what the function does to the transport when it is called with a
  message: the listeners it registers, by calling \<open>listen\<close>, before it returns. The
  listeners considered return normally, call no other method of the transport and leave
  the message as it is.

  The instance state is the array \<open>_listeners\<close>. Next to it the record keeps what the
  instance has done to the outside: the encoded messages handed to
  \<open>_protocol.sendToBackend\<close> and to \<open>_protocol.sendToFrontend\<close>, and the listener calls
  made, each with the message it received, all in order.
\<close>

type_synonym 'p handlers = "nat \<Rightarrow> 'p val \<Rightarrow> nat list"

record ('p, 'b) MobileIpcTransport =
  listeners :: "nat list"
  toBackend :: "'b list"
  toFrontend :: "'b list"
  delivered :: "(nat \<times> 'p val) list"

definition new_MobileIpcTransport :: "('p, 'b) MobileIpcTransport" where
  "new_MobileIpcTransport = \<lparr>listeners = [], toBackend = [], toFrontend = [], delivered = []\<rparr>"

definition listen :: "nat \<Rightarrow> ('p, 'b) MobileIpcTransport \<Rightarrow> ('p, 'b) MobileIpcTransport" where
  "listen handler s = s\<lparr>listeners := listeners s @ [handler]\<rparr>"

text \<open>The call \<open>listener(message)\<close>: the call is made, then the listener's registrations.\<close>

definition call_listener ::
  "'p handlers \<Rightarrow> nat \<Rightarrow> 'p val \<Rightarrow> ('p, 'b) MobileIpcTransport \<Rightarrow> ('p, 'b) MobileIpcTransport" where
  "call_listener handlers listener message s =
     fold listen (handlers listener message) (s\<lparr>delivered := delivered s @ [(listener, message)]\<rparr>)"

text \<open>
  \<open>for (const listener of this._listeners) listener(message)\<close>: the array iterator keeps
  an index \<open>i\<close> and compares it with the current length of the array at every step, so it
  walks the array as it is at that moment, not as it was when the loop began.
\<close>

partial_function (option) broadcast_loop ::
  "'p handlers \<Rightarrow> 'p val \<Rightarrow> nat \<Rightarrow> ('p, 'b) MobileIpcTransport \<Rightarrow> ('p, 'b) MobileIpcTransport option" where
  "broadcast_loop handlers message i s =
     (if i < length (listeners s)
      then broadcast_loop handlers message (Suc i) (call_listener handlers (listeners s ! i) message s)
      else Some s)"

declare broadcast_loop.simps [code]

definition broadcast ::
  "'p handlers \<Rightarrow> 'p val \<Rightarrow> ('p, 'b) MobileIpcTransport \<Rightarrow> ('p, 'b) MobileIpcTransport option" where
  "broadcast handlers message s = broadcast_loop handlers message 0 s"

text \<open>
  The same loop, looked at after at most \<open>k\<close> listener calls: where the index stands
  and what the state is then. It says how far a dispatch has come, also one that never
  returns.
\<close>

fun broadcast_steps ::
  "nat \<Rightarrow> 'p handlers \<Rightarrow> 'p val \<Rightarrow> nat \<Rightarrow> ('p, 'b) MobileIpcTransport
    \<Rightarrow> nat \<times> ('p, 'b) MobileIpcTransport" where
  "broadcast_steps 0 handlers message i s = (i, s)"
| "broadcast_steps (Suc k) handlers message i s =
     (if i < length (listeners s)
      then broadcast_steps k handlers message (Suc i) (call_listener handlers (listeners s ! i) message s)
      else (i, s))"

text \<open>
  How deep registrations nest. \<open>settles 0\<close>: the listener registers nothing when handed
  the message; \<open>settles (n + 1)\<close>: the listeners it registers settle within \<open>n\<close>.
  \<open>calls_within n\<close> counts the listener calls that one call of such a listener brings about in
  a dispatch: its own and those of the listeners registered in its wake.
\<close>

fun settles :: "nat \<Rightarrow> 'p handlers \<Rightarrow> 'p val \<Rightarrow> nat \<Rightarrow> bool" where
  "settles 0 handlers message h \<longleftrightarrow> handlers h message = []"
| "settles (Suc n) handlers message h \<longleftrightarrow>
     (\<forall>h' \<in> set (handlers h message). settles n handlers message h')"

fun calls_within :: "nat \<Rightarrow> 'p handlers \<Rightarrow> 'p val \<Rightarrow> nat \<Rightarrow> nat" where
  "calls_within 0 handlers message h = 1"
| "calls_within (Suc n) handlers message h =
     Suc (sum_list (map (calls_within n handlers message) (handlers h message)))"

subsection \<open>Outbound: send\<close>

text \<open>
  \<open>sendToBackend\<close> and \<open>sendToFrontend\<close> are \<open>async\<close>: whatever is thrown in their
  body rejects the promise they return. Their model returns how the promise settles
  (\<open>Inl\<close> is a rejection) and the state once the body has run. The call
  \<open>request.dispose()\<close> releases the request object and has no effect on the transport.
\<close>

definition sendToBackend ::
  "('p, 'w, 'b) MobileRpcProtocol \<Rightarrow> 'p IpcWebSocketMessage \<Rightarrow> ('p, 'b) MobileIpcTransport
    \<Rightarrow> (error + unit) \<times> ('p, 'b) MobileIpcTransport" where
  "sendToBackend protocol message s =
     (let request = MobileRpcRequest IpcInterface_interfaceName ''send'' [Message message] in
      case encodeRequest protocol request of
        Inl err \<Rightarrow> (Inl err, s)
      | Inr encoded \<Rightarrow> (Inr (), s\<lparr>toBackend := toBackend s @ [encoded]\<rparr>))"

definition sendToFrontend ::
  "('p, 'w, 'b) MobileRpcProtocol \<Rightarrow> 'p IpcWebSocketMessage \<Rightarrow> ('p, 'b) MobileIpcTransport
    \<Rightarrow> (error + unit) \<times> ('p, 'b) MobileIpcTransport" where
  "sendToFrontend protocol message s =
     (case serialize protocol (Message message) of
        Inl err \<Rightarrow> (Inl err, s)
      | Inr res \<Rightarrow>
          (let fulfillment = \<lparr>result = res, rawResult = Message message, interfaceName = IPC,
                 id' = channel message, status = 0\<rparr>;
               encoded = encodeResponse protocol fulfillment
           in (Inr (), s\<lparr>toFrontend := toFrontend s @ [encoded]\<rparr>)))"

text \<open>
  \<open>send\<close> calls the asynchronous method and drops the promise (the source silences the
  floating-promise lint on both lines), then falls off its end: its caller gets control
  back normally, which is the \<open>Inr ()\<close>, whatever became of the promise.
\<close>

definition send ::
  "('p, 'w, 'b) MobileRpcProtocol \<Rightarrow> 'p IpcWebSocketMessage \<Rightarrow> ('p, 'b) MobileIpcTransport
    \<Rightarrow> (error + unit) \<times> ('p, 'b) MobileIpcTransport" where
  "send protocol message s =
     (if type message = Send \<or> type message = Invoke
      then (Inr (), snd (sendToBackend protocol message s))
      else if type message = Push \<or> type message = Response
      then (Inr (), snd (sendToFrontend protocol message s))
      else (Inr (), s))"

subsection \<open>Inbound: consumeRequest and consumeResponse\<close>

text \<open>
  The result is \<open>None\<close> when the dispatch never returns; otherwise it is the boolean
  returned, or the exception thrown, together with the state at that moment.
\<close>

definition consumeRequest ::
  "('p, 'w, 'b) MobileRpcProtocol \<Rightarrow> 'p handlers \<Rightarrow> 'w SerializedRpcRequest
    \<Rightarrow> ('p, 'b) MobileIpcTransport \<Rightarrow> ((error + bool) \<times> ('p, 'b) MobileIpcTransport) option" where
  "consumeRequest protocol handlers request s =
     (if interfaceDefinition (operation request) \<noteq> IPC then Some (Inr False, s)
      else case deserialize protocol (parameters request) of
             Inl err \<Rightarrow> Some (Inl err, s)
           | Inr v \<Rightarrow>
               (case index0 v of
                  Inl err \<Rightarrow> Some (Inl err, s)
                | Inr message \<Rightarrow> map_option (Pair (Inr True)) (broadcast handlers message s)))"

definition consumeResponse ::
  "('p, 'w, 'b) MobileRpcProtocol \<Rightarrow> 'p handlers \<Rightarrow> ('p, 'w) RpcRequestFulfillment
    \<Rightarrow> ('p, 'b) MobileIpcTransport \<Rightarrow> ((error + bool) \<times> ('p, 'b) MobileIpcTransport) option" where
  "consumeResponse protocol handlers response s =
     (if interfaceName response \<noteq> IPC then Some (Inr False, s)
      else case deserialize protocol (result response) of
             Inl err \<Rightarrow> Some (Inl err, s)
           | Inr message \<Rightarrow> map_option (Pair (Inr True)) (broadcast handlers message s))"

subsection \<open>The public methods as calls\<close>

text \<open>
  The public methods of the class are \<open>send\<close>, \<open>listen\<close>, \<open>consumeRequest\<close> and
  \<open>consumeResponse\<close>; there is no method that removes a listener. \<open>perform\<close> makes one
  call and keeps the state it leaves (\<open>None\<close> when the call never returns, and the state at
  the throw when it throws); \<open>perform_all\<close> makes a sequence of calls.
\<close>

datatype ('p, 'w) call =
  CallSend "'p IpcWebSocketMessage"
| CallListen nat
| CallConsumeRequest "'w SerializedRpcRequest"
| CallConsumeResponse "('p, 'w) RpcRequestFulfillment"

fun perform ::
  "('p, 'w, 'b) MobileRpcProtocol \<Rightarrow> 'p handlers \<Rightarrow> ('p, 'w) call
    \<Rightarrow> ('p, 'b) MobileIpcTransport \<Rightarrow> ('p, 'b) MobileIpcTransport option" where
  "perform protocol handlers (CallSend message) s = Some (snd (send protocol message s))"
| "perform protocol handlers (CallListen handler) s = Some (listen handler s)"
| "perform protocol handlers (CallConsumeRequest request) s =
     map_option snd (consumeRequest protocol handlers request s)"
| "perform protocol handlers (CallConsumeResponse response) s =
     map_option snd (consumeResponse protocol handlers response s)"

fun perform_all ::
  "('p, 'w, 'b) MobileRpcProtocol \<Rightarrow> 'p handlers \<Rightarrow> ('p, 'w) call list
    \<Rightarrow> ('p, 'b) MobileIpcTransport \<Rightarrow> ('p, 'b) MobileIpcTransport option" where
  "perform_all protocol handlers [] s = Some s"
| "perform_all protocol handlers (c # cs) s =
     (case perform protocol handlers c s of
        None \<Rightarrow> None
      | Some s' \<Rightarrow> perform_all protocol handlers cs s')"

subsection \<open>Assumptions on the collaborators\<close>

text \<open>
  Modelled from the spec: what the spec requires of the two codecs.
  The marshaling layer is lossless when every value can be serialized and deserializing
  the wire form gives the value back. The protocol codec is faithful when decoding an
  encoded request gives the request back, and decoding an encoded fulfillment gives a
  fulfillment with the same \<open>result\<close> and \<open>interfaceName\<close>.
\<close>

definition lossless :: "('p, 'w, 'b) MobileRpcProtocol \<Rightarrow> bool" where
  "lossless protocol \<longleftrightarrow>
     (\<forall>v. case serialize protocol v of
            Inl err \<Rightarrow> False
          | Inr w \<Rightarrow> deserialize protocol w = Inr v)"

definition faithful :: "('p, 'w, 'b) MobileRpcProtocol \<Rightarrow> bool" where
  "faithful protocol \<longleftrightarrow>
     (\<forall>r. decode protocol (encode protocol (WireRequest r)) = Some (WireRequest r)) \<and>
     (\<forall>f. case decode protocol (encode protocol (WireFulfillment f)) of
            Some (WireFulfillment f') \<Rightarrow> result f' = result f \<and> interfaceName f' = interfaceName f
          | _ \<Rightarrow> False)"

subsection \<open>Concrete collaborators and inputs\<close>

text \<open>
  A loopback protocol: a value is its own wire form and a logical message its own encoding,
  except that the values in \<open>unmarshalable\<close> are refused by \<open>serialize\<close> and the wire
  values in \<open>unreadable\<close> by \<open>deserialize\<close>. The decoder does not reproduce
  \<open>rawResult\<close>, which never crosses the channel.
\<close>

definition loopback ::
  "'p val list \<Rightarrow> 'p val list \<Rightarrow> ('p, 'p val, ('p, 'p val) wire) MobileRpcProtocol" where
  "loopback unmarshalable unreadable =
     \<lparr>serialize = (\<lambda>v. if v \<in> set unmarshalable then Inl SerializationError else Inr v),
      deserialize = (\<lambda>w. if w \<in> set unreadable then Inl SerializationError else Inr w),
      encode = (\<lambda>x. x),
      decode = (\<lambda>b. case b of
                  WireRequest r \<Rightarrow> Some (WireRequest r)
                | WireFulfillment f \<Rightarrow> Some (WireFulfillment (f\<lparr>rawResult := Undefined\<rparr>)))\<rparr>"

definition ping :: "string IpcWebSocketMessage" where
  "ping = \<lparr>type = Invoke, channel = ''ui-sync'', payload = ''ping''\<rparr>"

definition pong :: "string IpcWebSocketMessage" where
  "pong = \<lparr>type = Response, channel = ''ui-sync'', payload = ''pong''\<rparr>"

definition intact :: "(string, string val, (string, string val) wire) MobileRpcProtocol" where
  "intact = loopback [] []"

text \<open>
  A marshaling layer whose \<open>deserialize\<close> always returns an array, the array holding the
  one value that was serialized; one that cannot serialize the two envelopes (nor the
  argument list holding the first); and one that cannot deserialize the wire value
  \<open>Undefined\<close>.
\<close>

definition arrays :: "(string, string val, (string, string val) wire) MobileRpcProtocol" where
  "arrays = intact \<lparr>deserialize := (\<lambda>w. Inr (Array [w]))\<rparr>"

definition refusing :: "(string, string val, (string, string val) wire) MobileRpcProtocol" where
  "refusing = loopback [Array [Message ping], Message pong] []"

definition choking :: "(string, string val, (string, string val) wire) MobileRpcProtocol" where
  "choking = loopback [] [Undefined]"

text \<open>
  Listeners that register nothing, and listeners of which number 0 registers listener
  number 2 every time it is called.
\<close>

definition quiet :: "string handlers" where
  "quiet = (\<lambda>listener message. [])"

definition newcomer :: "string handlers" where
  "newcomer = (\<lambda>listener message. if listener = 0 then [2] else [])"

text \<open>
  Listeners of which number 0 registers number 2 and number 2 registers number 3, every
  time they are called; and the states that two dispatches leave with them.
\<close>

definition chain :: "string handlers" where
  "chain = (\<lambda>listener message. if listener = 0 then [2] else if listener = 2 then [3] else [])"

definition after_ping :: "(string, (string, string val) wire) MobileIpcTransport" where
  "after_ping =
     \<lparr>listeners = [0, 1, 2, 3], toBackend = [], toFrontend = [],
      delivered = [(0, Message ping), (1, Message ping), (2, Message ping), (3, Message ping)]\<rparr>"

definition after_pong :: "(string, (string, string val) wire) MobileIpcTransport" where
  "after_pong =
     \<lparr>listeners = [0, 1, 2, 3, 2, 3, 3], toBackend = [], toFrontend = [],
      delivered = [(0, Message ping), (1, Message ping), (2, Message ping), (3, Message ping),
                   (0, Message pong), (1, Message pong), (2, Message pong), (3, Message pong),
                   (2, Message pong), (3, Message pong), (3, Message pong)]\<rparr>"

definition no_listeners :: "(string, (string, string val) wire) MobileIpcTransport" where
  "no_listeners = new_MobileIpcTransport"

definition one_listener :: "(string, (string, string val) wire) MobileIpcTransport" where
  "one_listener = listen 0 new_MobileIpcTransport"

definition two_listeners :: "(string, (string, string val) wire) MobileIpcTransport" where
  "two_listeners = listen 1 (listen 0 new_MobileIpcTransport)"

text \<open>
  Inbound messages: the request and the fulfillment that carry \<open>ping\<close> and \<open>pong\<close>, a
  request and a fulfillment addressed to \<open>__ipc__\<close> whose payload is the unreadable wire
  value, and a request of an application interface.
\<close>

definition ping_request :: "string val SerializedRpcRequest" where
  "ping_request =
     \<lparr>operation = \<lparr>interfaceDefinition = ''__ipc__'', operationName = ''send''\<rparr>,
      parameters = Array [Message ping]\<rparr>"

definition pong_response :: "(string, string val) RpcRequestFulfillment" where
  "pong_response =
     \<lparr>result = Message pong, rawResult = Undefined, interfaceName = ''__ipc__'',
      id' = ''ui-sync'', status = 0\<rparr>"

definition garbled_request :: "string val SerializedRpcRequest" where
  "garbled_request =
     \<lparr>operation = \<lparr>interfaceDefinition = ''__ipc__'', operationName = ''send''\<rparr>,
      parameters = Undefined\<rparr>"

definition garbled_response :: "(string, string val) RpcRequestFulfillment" where
  "garbled_response =
     \<lparr>result = Undefined, rawResult = Undefined, interfaceName = ''__ipc__'',
      id' = ''ui-sync'', status = 0\<rparr>"

definition props_request :: "string val SerializedRpcRequest" where
  "props_request =
     \<lparr>operation = \<lparr>interfaceDefinition = ''IModelReadRpcInterface'', operationName = ''getProps''\<rparr>,
      parameters = Array [Message ping]\<rparr>"

section \<open>Properties\<close>

subsection \<open>The dispatch loop\<close>

lemma fold_listen: "fold listen hs s = s\<lparr>listeners := listeners s @ hs\<rparr>"
  by (induction hs arbitrary: s) (simp_all add: listen_def)

lemma call_listener_eq:
  "call_listener handlers h m s =
     s\<lparr>listeners := listeners s @ handlers h m, delivered := delivered s @ [(h, m)]\<rparr>"
  by (simp add: call_listener_def fold_listen)

lemma concat_quiet: "\<forall>x \<in> set xs. f x = [] \<Longrightarrow> concat (map f xs) = []"
  by (induction xs) simp_all

text \<open>
  When the listeners registered during a dispatch register nothing themselves, the loop
  returns. The measure is the number of listeners still to call plus the number of
  registrations still to come; every call lowers it by one.
\<close>

lemma broadcast_loop_one_level:
  fixes s :: "('p, 'b) MobileIpcTransport"
  assumes "\<forall>h \<in> set (drop i (listeners s)). \<forall>h' \<in> set (handlers h m). handlers h' m = []"
  shows "broadcast_loop handlers m i s =
     Some (s\<lparr>listeners := listeners s @ concat (map (\<lambda>h. handlers h m) (drop i (listeners s))),
             delivered := delivered s @ map (\<lambda>h. (h, m))
               (drop i (listeners s) @ concat (map (\<lambda>h. handlers h m) (drop i (listeners s))))\<rparr>)"
  using assms
proof (induction "length (drop i (listeners s)) + length (concat (map (\<lambda>h. handlers h m) (drop i (listeners s))))"
    arbitrary: i s rule: less_induct)
  case less
  let ?f = "\<lambda>h. handlers h m"
  let ?ls = "listeners s"
  show ?case
  proof (cases "i < length ?ls")
    case False
    then show ?thesis
      by (subst broadcast_loop.simps) simp
  next
    case True
    let ?h = "?ls ! i"
    let ?rest = "drop (Suc i) ?ls"
    let ?s1 = "call_listener handlers ?h m s"
    have dr: "drop i ?ls = ?h # ?rest"
      using True by (simp add: Cons_nth_drop_Suc)
    have ls1: "listeners ?s1 = ?ls @ ?f ?h"
      by (simp add: call_listener_eq)
    have dr1: "drop (Suc i) (listeners ?s1) = ?rest @ ?f ?h"
      using True by (simp add: ls1)
    have kids: "\<forall>h' \<in> set (?f ?h). ?f h' = []"
      using less.prems dr by simp
    have ckids: "concat (map ?f (?f ?h)) = []"
      using kids by (rule concat_quiet)
    have hyp1: "\<forall>h \<in> set (drop (Suc i) (listeners ?s1)). \<forall>h' \<in> set (?f h). ?f h' = []"
      using less.prems kids by (auto simp: dr1 dr)
    have meas: "length (drop (Suc i) (listeners ?s1)) + length (concat (map ?f (drop (Suc i) (listeners ?s1))))
        < length (drop i ?ls) + length (concat (map ?f (drop i ?ls)))"
      unfolding dr1 dr using ckids by simp
    have step: "broadcast_loop handlers m i s = broadcast_loop handlers m (Suc i) ?s1"
      using True by (subst broadcast_loop.simps) simp
    show ?thesis
      unfolding step
      apply (subst less.hyps [OF meas hyp1])
      unfolding dr1 dr
      using ckids by (simp add: call_listener_eq)
  qed
qed

lemma broadcast_loop_quiet:
  assumes "\<forall>h \<in> set (drop i (listeners s)). handlers h m = []"
  shows "broadcast_loop handlers m i s =
     Some (s\<lparr>delivered := delivered s @ map (\<lambda>h. (h, m)) (drop i (listeners s))\<rparr>)"
proof -
  have c: "concat (map (\<lambda>h. handlers h m) (drop i (listeners s))) = []"
    using assms by (rule concat_quiet)
  have "\<forall>h \<in> set (drop i (listeners s)). \<forall>h' \<in> set (handlers h m). handlers h' m = []"
    using assms by simp
  from broadcast_loop_one_level [of i s handlers m, OF this] show ?thesis
    by (simp add: c)
qed

lemma broadcast_quiet:
  "\<forall>h \<in> set (listeners s). handlers h m = [] \<Longrightarrow>
   broadcast handlers m s = Some (s\<lparr>delivered := delivered s @ map (\<lambda>h. (h, m)) (listeners s)\<rparr>)"
  using broadcast_loop_quiet [of 0 s handlers m] by (simp add: broadcast_def)

text \<open>
  Whatever the listeners do, every listener call only appends to the list, and so a dispatch
  that returns has only appended to it.
\<close>

lemma call_listener_appends:
  "\<exists>zs. listeners (call_listener handlers h m s) = listeners s @ zs"
  by (simp add: call_listener_eq)

lemma broadcast_loop_appends:
  assumes "broadcast_loop handlers m i s = Some s'"
  shows "\<exists>zs. listeners s' = listeners s @ zs"
proof (rule broadcast_loop.raw_induct
    [where P = "\<lambda>handlers m i s s'. \<exists>zs. listeners s' = listeners s @ zs", OF _ assms])
  fix loop :: "'a handlers \<Rightarrow> 'a val \<Rightarrow> nat \<Rightarrow> ('a, 'b) MobileIpcTransport \<Rightarrow> ('a, 'b) MobileIpcTransport option"
  fix handlers m i s s'
  assume IH: "\<And>handlers m i s s'. loop handlers m i s = Some s' \<Longrightarrow> \<exists>zs. listeners s' = listeners s @ zs"
  assume eq: "(if i < length (listeners s)
      then loop handlers m (Suc i) (call_listener handlers (listeners s ! i) m s)
      else Some s) = Some s'"
  show "\<exists>zs. listeners s' = listeners s @ zs"
  proof (cases "i < length (listeners s)")
    case True
    with eq have "loop handlers m (Suc i) (call_listener handlers (listeners s ! i) m s) = Some s'"
      by simp
    from IH [OF this] show ?thesis
      by (auto simp: call_listener_eq)
  next
    case False
    with eq show ?thesis by simp
  qed
qed

subsection \<open>Facts about the concrete inputs\<close>

lemma two_listeners_eq:
  "two_listeners = \<lparr>listeners = [0, 1], toBackend = [], toFrontend = [], delivered = []\<rparr>"
  by (simp add: two_listeners_def listen_def new_MobileIpcTransport_def)

lemma one_listener_eq:
  "one_listener = \<lparr>listeners = [0], toBackend = [], toFrontend = [], delivered = []\<rparr>"
  by (simp add: one_listener_def listen_def new_MobileIpcTransport_def)

lemma no_listeners_eq:
  "no_listeners = \<lparr>listeners = [], toBackend = [], toFrontend = [], delivered = []\<rparr>"
  by (simp add: no_listeners_def new_MobileIpcTransport_def)

lemma lossless_intact: "lossless intact"
  by (simp add: lossless_def intact_def loopback_def)

lemma faithful_intact: "faithful intact"
  by (simp add: faithful_def intact_def loopback_def)

lemma broadcast_two_quiet:
  "broadcast quiet m two_listeners = Some (two_listeners\<lparr>delivered := [(0, m), (1, m)]\<rparr>)"
  using broadcast_quiet [of two_listeners quiet m]
  by (simp add: quiet_def two_listeners_eq)

subsection \<open>Requests of other interfaces are left alone\<close>

text \<open>
  Claim C3. A serialized RPC request whose \<open>operation.interfaceDefinition\<close> is not the
  sentinel \<open>__ipc__\<close> is declined: \<open>consumeRequest\<close> returns \<open>false\<close>, and the state it
  returns with is the state it was called in, so no listener was called (the record of
  listener calls is part of that state), the listener list is the same and nothing was
  handed to the channel. The request is a value and is not touched.
\<close>

theorem consumeRequest_declines_other_interfaces:
  "interfaceDefinition (operation request) \<noteq> IPC \<Longrightarrow>
   consumeRequest protocol handlers request s = Some (Inr False, s)"
  by (simp add: consumeRequest_def)

theorem consumeRequest_declines_other_interfaces_witness:
  "interfaceDefinition (operation props_request) \<noteq> IPC
   \<and> consumeRequest intact newcomer props_request two_listeners = Some (Inr False, two_listeners)"
  using consumeRequest_declines_other_interfaces [of props_request intact newcomer two_listeners]
  by (simp add: IPC_def props_request_def)

subsection \<open>Outbound envelopes\<close>

text \<open>
  Claim C10. When the type of a message is none of \<open>Send\<close>, \<open>Invoke\<close>, \<open>Push\<close> and
  \<open>Response\<close>, \<open>send\<close> returns normally, and the state it returns with is the state it
  was called in: nothing was handed to the channel in either direction and nothing was
  changed. The message is dropped without a word.
\<close>

theorem send_drops_unlisted_type:
  "type message \<notin> {Send, Invoke, Push, Response} \<Longrightarrow> send protocol message s = (Inr (), s)"
  by (simp add: send_def)

theorem send_drops_unlisted_type_witness:
  "type (ping\<lparr>type := Unlisted 4\<rparr>) \<notin> {Send, Invoke, Push, Response}
   \<and> send intact (ping\<lparr>type := Unlisted 4\<rparr>) two_listeners = (Inr (), two_listeners)"
  using send_drops_unlisted_type [of "ping\<lparr>type := Unlisted 4\<rparr>" intact two_listeners]
  by simp

text \<open>
  Claim C7. \<open>send\<close> routes by the type of the envelope. For \<open>Send\<close> and \<open>Invoke\<close>,
  with \<open>w\<close> the marshaled argument list that holds the envelope and nothing else, the
  request addressed to \<open>__ipc__\<close> with operation \<open>send\<close> and parameters \<open>w\<close> is encoded
  and handed to the backend. For \<open>Push\<close> and \<open>Response\<close>, with \<open>w'\<close> the marshaled
  envelope, the fulfillment with result \<open>w'\<close>, id the envelope's channel, interface name
  \<open>__ipc__\<close> and status 0 is encoded and handed to the frontend. Nothing else changes.
\<close>

theorem send_routes_by_type:
  "(type up = Send \<or> type up = Invoke \<longrightarrow>
      serialize protocol (Array [Message up]) = Inr w \<longrightarrow>
        send protocol up s
        = (Inr (), s\<lparr>toBackend := toBackend s @
             [encode protocol (WireRequest
                \<lparr>operation = \<lparr>interfaceDefinition = IPC, operationName = ''send''\<rparr>,
                 parameters = w\<rparr>)]\<rparr>))
   \<and> (type down = Push \<or> type down = Response \<longrightarrow>
      serialize protocol (Message down) = Inr w' \<longrightarrow>
        send protocol down s
        = (Inr (), s\<lparr>toFrontend := toFrontend s @
             [encode protocol (WireFulfillment
                \<lparr>result = w', rawResult = Message down, interfaceName = IPC,
                 id' = channel down, status = 0\<rparr>)]\<rparr>))"
  by (auto simp: send_def sendToBackend_def sendToFrontend_def encodeResponse_def
      IpcInterface_interfaceName_def)

theorem send_routes_by_type_witness:
  "(type ping = Send \<or> type ping = Invoke)
   \<and> serialize intact (Array [Message ping]) = Inr (Array [Message ping])
   \<and> send intact ping two_listeners
       = (Inr (), two_listeners\<lparr>toBackend := [WireRequest ping_request]\<rparr>)
   \<and> (type pong = Push \<or> type pong = Response)
   \<and> serialize intact (Message pong) = Inr (Message pong)
   \<and> send intact pong two_listeners
       = (Inr (), two_listeners\<lparr>toFrontend :=
            [WireFulfillment (pong_response\<lparr>rawResult := Message pong\<rparr>)]\<rparr>)"
  using send_routes_by_type [of ping intact "Array [Message ping]" two_listeners pong "Message pong"]
  by (simp add: intact_def loopback_def ping_def pong_def two_listeners_eq IPC_def
      ping_request_def pong_response_def)

text \<open>
  Claim C5, as the code has it. When marshaling fails during a send, the error rejects the
  promise of \<open>sendToBackend\<close> or \<open>sendToFrontend\<close>, and \<open>send\<close>, which dropped that
  promise, returns normally to its caller. Nothing is handed to the channel, nothing is
  tried again, and the state is the state \<open>send\<close> was called in.
\<close>

theorem marshaling_failure_stays_in_promise:
  "(type up = Send \<or> type up = Invoke \<longrightarrow>
      serialize protocol (Array [Message up]) = Inl err \<longrightarrow>
        sendToBackend protocol up s = (Inl err, s) \<and> send protocol up s = (Inr (), s))
   \<and> (type down = Push \<or> type down = Response \<longrightarrow>
      serialize protocol (Message down) = Inl err' \<longrightarrow>
        sendToFrontend protocol down s = (Inl err', s) \<and> send protocol down s = (Inr (), s))"
  by (auto simp: send_def sendToBackend_def sendToFrontend_def)

theorem marshaling_failure_stays_in_promise_witness:
  "(type ping = Send \<or> type ping = Invoke)
   \<and> serialize refusing (Array [Message ping]) = Inl SerializationError
   \<and> sendToBackend refusing ping two_listeners = (Inl SerializationError, two_listeners)
   \<and> send refusing ping two_listeners = (Inr (), two_listeners)
   \<and> (type pong = Push \<or> type pong = Response)
   \<and> serialize refusing (Message pong) = Inl SerializationError
   \<and> sendToFrontend refusing pong two_listeners = (Inl SerializationError, two_listeners)
   \<and> send refusing pong two_listeners = (Inr (), two_listeners)"
  using marshaling_failure_stays_in_promise
    [of ping refusing SerializationError two_listeners pong SerializationError]
  by (simp add: refusing_def loopback_def ping_def pong_def)

text \<open>
  The claim as the spec has it fails: the argument list holding \<open>ping\<close> cannot be
  marshaled, and the call of \<open>send\<close> does not fail.
\<close>

theorem send_failure_counterexample:
  "encodeRequest refusing (MobileRpcRequest IpcInterface_interfaceName ''send'' [Message ping])
     = Inl SerializationError
   \<and> send refusing ping no_listeners = (Inr (), no_listeners)
   \<and> fst (send refusing ping no_listeners) \<noteq> Inl SerializationError"
  by (simp add: send_def sendToBackend_def refusing_def loopback_def ping_def)

subsection \<open>Round trip of an envelope\<close>

lemma losslessD:
  assumes "lossless protocol"
  obtains w where "serialize protocol v = Inr w" and "deserialize protocol w = Inr v"
proof (cases "serialize protocol v")
  case (Inl err)
  with assms show ?thesis
    by (auto simp: lossless_def dest: spec [of _ v])
next
  case (Inr w)
  with assms have "deserialize protocol w = Inr v"
    by (auto simp: lossless_def dest: spec [of _ v])
  with Inr that show ?thesis by blast
qed

lemma faithful_fulfillmentD:
  assumes "faithful protocol"
  obtains f' where "decode protocol (encode protocol (WireFulfillment f)) = Some (WireFulfillment f')"
    and "result f' = result f" and "interfaceName f' = interfaceName f"
proof -
  from assms have "case decode protocol (encode protocol (WireFulfillment f)) of
            Some (WireFulfillment f') \<Rightarrow> result f' = result f \<and> interfaceName f' = interfaceName f
          | _ \<Rightarrow> False"
    by (simp add: faithful_def)
  with that show ?thesis
    by (auto split: option.splits wire.splits)
qed

text \<open>
  Claim C1. Let the marshaling layer be lossless and the protocol codec faithful. For an
  envelope \<open>e\<close> of type \<open>Send\<close> or \<open>Invoke\<close>, \<open>send\<close> hands one encoded message to the
  backend; it decodes to a request, and \<open>consumeRequest\<close> on that request, on the
  receiving instance, is the broadcast of \<open>e\<close> itself to the listeners there, returning
  \<open>true\<close>. For an envelope of type \<open>Push\<close> or \<open>Response\<close> the same holds towards the
  frontend, with a fulfillment and \<open>consumeResponse\<close>. The envelope that is broadcast is
  equal to \<open>e\<close>: channel, type and payload.
\<close>

theorem envelope_round_trip:
  fixes protocol :: "('p, 'w, 'b) MobileRpcProtocol"
  assumes "lossless protocol" and "faithful protocol"
  shows "(type e = Send \<or> type e = Invoke \<longrightarrow>
           (\<exists>bytes request.
              send protocol e sender = (Inr (), sender\<lparr>toBackend := toBackend sender @ [bytes]\<rparr>)
              \<and> decode protocol bytes = Some (WireRequest request)
              \<and> consumeRequest protocol handlers request receiver
                  = map_option (Pair (Inr True)) (broadcast handlers (Message e) receiver)))
       \<and> (type e = Push \<or> type e = Response \<longrightarrow>
           (\<exists>bytes response.
              send protocol e sender = (Inr (), sender\<lparr>toFrontend := toFrontend sender @ [bytes]\<rparr>)
              \<and> decode protocol bytes = Some (WireFulfillment response)
              \<and> consumeResponse protocol handlers response receiver
                  = map_option (Pair (Inr True)) (broadcast handlers (Message e) receiver)))"
proof (intro conjI impI)
  assume up: "type e = Send \<or> type e = Invoke"
  from assms(1) obtain w where w: "serialize protocol (Array [Message e]) = Inr w"
    and inv: "deserialize protocol w = Inr (Array [Message e])"
    by (rule losslessD)
  let ?request = "\<lparr>operation = \<lparr>interfaceDefinition = IPC, operationName = ''send''\<rparr>, parameters = w\<rparr>"
  let ?bytes = "encode protocol (WireRequest ?request)"
  have sent: "send protocol e sender = (Inr (), sender\<lparr>toBackend := toBackend sender @ [?bytes]\<rparr>)"
    using up w by (auto simp: send_def sendToBackend_def IpcInterface_interfaceName_def)
  have decoded: "decode protocol ?bytes = Some (WireRequest ?request)"
    using assms(2) by (simp add: faithful_def)
  have "consumeRequest protocol handlers ?request receiver
      = map_option (Pair (Inr True)) (broadcast handlers (Message e) receiver)"
    using inv by (simp add: consumeRequest_def)
  with sent decoded
  show "\<exists>bytes request.
      send protocol e sender = (Inr (), sender\<lparr>toBackend := toBackend sender @ [bytes]\<rparr>)
      \<and> decode protocol bytes = Some (WireRequest request)
      \<and> consumeRequest protocol handlers request receiver
          = map_option (Pair (Inr True)) (broadcast handlers (Message e) receiver)"
    by blast
next
  assume down: "type e = Push \<or> type e = Response"
  from assms(1) obtain w where w: "serialize protocol (Message e) = Inr w"
    and inv: "deserialize protocol w = Inr (Message e)"
    by (rule losslessD)
  let ?fulfillment = "\<lparr>result = w, rawResult = Message e, interfaceName = IPC,
      id' = channel e, status = 0\<rparr>"
  let ?bytes = "encode protocol (WireFulfillment ?fulfillment)"
  have sent: "send protocol e sender = (Inr (), sender\<lparr>toFrontend := toFrontend sender @ [?bytes]\<rparr>)"
    using down w by (auto simp: send_def sendToFrontend_def encodeResponse_def)
  from assms(2) obtain response where decoded: "decode protocol ?bytes = Some (WireFulfillment response)"
    and same: "result response = w" "interfaceName response = IPC"
    by (rule faithful_fulfillmentD [of protocol ?fulfillment]) simp
  have "consumeResponse protocol handlers response receiver
      = map_option (Pair (Inr True)) (broadcast handlers (Message e) receiver)"
    using inv same by (simp add: consumeResponse_def)
  with sent decoded
  show "\<exists>bytes response.
      send protocol e sender = (Inr (), sender\<lparr>toFrontend := toFrontend sender @ [bytes]\<rparr>)
      \<and> decode protocol bytes = Some (WireFulfillment response)
      \<and> consumeResponse protocol handlers response receiver
          = map_option (Pair (Inr True)) (broadcast handlers (Message e) receiver)"
    by blast
qed

text \<open>
  The scenario of the spec: \<open>ping\<close> goes up and reaches both listeners of the backend as
  it was sent; \<open>pong\<close> comes down and reaches both listeners of the frontend as it was sent.
\<close>

theorem envelope_round_trip_witness:
  "lossless intact \<and> faithful intact
   \<and> (type ping = Send \<or> type ping = Invoke)
   \<and> (\<exists>bytes request.
         send intact ping no_listeners
           = (Inr (), no_listeners\<lparr>toBackend := toBackend no_listeners @ [bytes]\<rparr>)
         \<and> decode intact bytes = Some (WireRequest request)
         \<and> consumeRequest intact quiet request two_listeners
           = map_option (Pair (Inr True)) (broadcast quiet (Message ping) two_listeners))
   \<and> broadcast quiet (Message ping) two_listeners
       = Some (two_listeners\<lparr>delivered := [(0, Message ping), (1, Message ping)]\<rparr>)
   \<and> (type pong = Push \<or> type pong = Response)
   \<and> (\<exists>bytes response.
         send intact pong no_listeners
           = (Inr (), no_listeners\<lparr>toFrontend := toFrontend no_listeners @ [bytes]\<rparr>)
         \<and> decode intact bytes = Some (WireFulfillment response)
         \<and> consumeResponse intact quiet response two_listeners
           = map_option (Pair (Inr True)) (broadcast quiet (Message pong) two_listeners))
   \<and> broadcast quiet (Message pong) two_listeners
       = Some (two_listeners\<lparr>delivered := [(0, Message pong), (1, Message pong)]\<rparr>)"
proof -
  have up: "type ping = Send \<or> type ping = Invoke"
    and down: "type pong = Push \<or> type pong = Response"
    by (simp_all add: ping_def pong_def)
  note upward = envelope_round_trip [OF lossless_intact faithful_intact,
      of ping no_listeners quiet two_listeners, THEN conjunct1, THEN mp, OF up]
  note downward = envelope_round_trip [OF lossless_intact faithful_intact,
      of pong no_listeners quiet two_listeners, THEN conjunct2, THEN mp, OF down]
  show ?thesis
    by (intro conjI lossless_intact faithful_intact up down upward downward broadcast_two_quiet)
qed

subsection \<open>Inbound fulfillments\<close>

text \<open>
  Claim C2, as the code has it. On a fulfillment whose interface name is \<open>__ipc__\<close>,
  \<open>consumeResponse\<close> deserializes \<open>result\<close> (whatever \<open>rawResult\<close>, \<open>id\<close> and
  \<open>status\<close> are) and broadcasts the value \<open>v\<close> that \<open>deserialize\<close> returns, whole and
  unindexed, whatever kind of value it is, returning \<open>true\<close>; when the listeners
  register nothing, each of them receives \<open>v\<close>. With \<open>w\<close> the marshaled envelope \<open>e\<close>,
  \<open>sendToFrontend\<close> hands the encoded fulfillment with result \<open>w\<close> and interface name
  \<open>__ipc__\<close> to the frontend; and when \<open>deserialize\<close> gives \<open>e\<close> back for \<open>w\<close>, what
  \<open>consumeResponse\<close> broadcasts for a fulfillment with that result is \<open>e\<close>.
\<close>

theorem consumeResponse_broadcasts_result:
  "(interfaceName response = IPC \<longrightarrow> deserialize protocol (result response) = Inr v \<longrightarrow>
      consumeResponse protocol handlers response receiver
        = map_option (Pair (Inr True)) (broadcast handlers v receiver)
      \<and> ((\<forall>h \<in> set (listeners receiver). handlers h v = []) \<longrightarrow>
           consumeResponse protocol handlers response receiver
           = Some (Inr True, receiver\<lparr>delivered :=
               delivered receiver @ map (\<lambda>h. (h, v)) (listeners receiver)\<rparr>)))
   \<and> (serialize protocol (Message e) = Inr w \<longrightarrow>
        sendToFrontend protocol e sender
          = (Inr (), sender\<lparr>toFrontend := toFrontend sender @
               [encodeResponse protocol \<lparr>result = w, rawResult = Message e, interfaceName = IPC,
                  id' = channel e, status = 0\<rparr>]\<rparr>)
        \<and> (deserialize protocol w = Inr (Message e) \<longrightarrow>
             consumeResponse protocol handlers
               \<lparr>result = w, rawResult = raw, interfaceName = IPC, id' = i, status = st\<rparr> receiver
             = map_option (Pair (Inr True)) (broadcast handlers (Message e) receiver)))"
  by (simp add: sendToFrontend_def consumeResponse_def broadcast_quiet)

text \<open>
  With a \<open>deserialize\<close> that returns arrays, both listeners receive the array; with the
  loopback, \<open>pong\<close> comes back as it was sent.
\<close>

theorem consumeResponse_broadcasts_result_witness:
  "interfaceName pong_response = IPC
   \<and> deserialize arrays (result pong_response) = Inr (Array [Message pong])
   \<and> quiet 0 (Array [Message pong]) = [] \<and> quiet 1 (Array [Message pong]) = []
   \<and> consumeResponse arrays quiet pong_response two_listeners
       = Some (Inr True, two_listeners\<lparr>delivered :=
            [(0, Array [Message pong]), (1, Array [Message pong])]\<rparr>)
   \<and> serialize intact (Message pong) = Inr (Message pong)
   \<and> deserialize intact (Message pong) = Inr (Message pong)
   \<and> sendToFrontend intact pong no_listeners
       = (Inr (), no_listeners\<lparr>toFrontend := toFrontend no_listeners @
            [encodeResponse intact \<lparr>result = Message pong, rawResult = Message pong,
               interfaceName = IPC, id' = channel pong, status = 0\<rparr>]\<rparr>)
   \<and> consumeResponse intact quiet
        \<lparr>result = Message pong, rawResult = Undefined, interfaceName = IPC,
         id' = ''ui-sync'', status = 0\<rparr> two_listeners
       = map_option (Pair (Inr True)) (broadcast quiet (Message pong) two_listeners)
   \<and> broadcast quiet (Message pong) two_listeners
       = Some (two_listeners\<lparr>delivered := [(0, Message pong), (1, Message pong)]\<rparr>)"
proof -
  have a1: "interfaceName pong_response = IPC"
    and a2: "deserialize arrays (result pong_response) = Inr (Array [Message pong])"
    by (simp_all add: pong_response_def IPC_def arrays_def)
  have q: "quiet h m = []" for h m
    by (simp add: quiet_def)
  have qs: "\<forall>h \<in> set (listeners two_listeners). quiet h (Array [Message pong]) = []"
    by (simp add: q)
  have after: "two_listeners\<lparr>delivered := delivered two_listeners
        @ map (\<lambda>h. (h, m)) (listeners two_listeners)\<rparr>
      = two_listeners\<lparr>delivered := [(0, m), (1, m)]\<rparr>" for m :: "string val"
    by (simp add: two_listeners_eq)
  note whole = consumeResponse_broadcasts_result
    [of pong_response arrays "Array [Message pong]" quiet two_listeners,
      THEN conjunct1, THEN mp, OF a1, THEN mp, OF a2, THEN conjunct2, THEN mp, OF qs,
      unfolded after]
  have 1: "serialize intact (Message pong) = Inr (Message pong)"
    and 2: "deserialize intact (Message pong) = Inr (Message pong)"
    by (simp_all add: intact_def loopback_def)
  note sent = consumeResponse_broadcasts_result
    [of _ intact _ quiet two_listeners pong "Message pong" no_listeners Undefined "''ui-sync''" 0,
      THEN conjunct2, THEN mp, OF 1]
  show ?thesis
    by (intro conjI a1 a2 q whole 1 2 sent [THEN conjunct1]
        sent [THEN conjunct2, THEN mp, OF 2] broadcast_two_quiet)
qed

text \<open>
  The claim as the spec has it fails: with a \<open>deserialize\<close> that returns an array of
  values, what the listeners receive is that array, not the envelope.
\<close>

theorem consumeResponse_array_counterexample:
  "sendToFrontend arrays pong no_listeners
     = (Inr (), no_listeners\<lparr>toFrontend :=
          [WireFulfillment (pong_response\<lparr>rawResult := Message pong\<rparr>)]\<rparr>)
   \<and> deserialize arrays (result (pong_response\<lparr>rawResult := Message pong\<rparr>))
       = Inr (Array [Message pong])
   \<and> consumeResponse arrays quiet (pong_response\<lparr>rawResult := Message pong\<rparr>) two_listeners
       = Some (Inr True, two_listeners\<lparr>delivered :=
            [(0, Array [Message pong]), (1, Array [Message pong])]\<rparr>)
   \<and> Array [Message pong] \<noteq> Message pong"
  by (simp add: sendToFrontend_def arrays_def intact_def loopback_def encodeResponse_def pong_def
      no_listeners_eq consumeResponse_def broadcast_two_quiet pong_response_def IPC_def)

subsection \<open>Malformed inbound payloads\<close>

text \<open>
  Claim C6. When a request or a fulfillment addressed to \<open>__ipc__\<close> carries a payload that
  \<open>deserialize\<close> refuses, \<open>consumeRequest\<close> (or \<open>consumeResponse\<close>) throws that one
  error, and the state at the throw is the state it was called in: no listener was called,
  the listener list and everything else are as they were. A well-formed message that comes
  next is then deserialized and broadcast; when the listeners register nothing, every
  listener receives it, once, in order.
\<close>

theorem malformed_payload_is_one_error:
  assumes "interfaceDefinition (operation bad_request) = IPC"
    and "deserialize protocol (parameters bad_request) = Inl err"
    and "interfaceName bad_response = IPC"
    and "deserialize protocol (result bad_response) = Inl err'"
    and "interfaceDefinition (operation good_request) = IPC"
    and "deserialize protocol (parameters good_request) = Inr (Array (message # rest))"
    and "interfaceName good_response = IPC"
    and "deserialize protocol (result good_response) = Inr message'"
  shows "consumeRequest protocol handlers bad_request s = Some (Inl err, s)
       \<and> consumeResponse protocol handlers bad_response s = Some (Inl err', s)
       \<and> Option.bind (consumeRequest protocol handlers bad_request s)
            (\<lambda>failed. consumeRequest protocol handlers good_request (snd failed))
          = map_option (Pair (Inr True)) (broadcast handlers message s)
       \<and> Option.bind (consumeResponse protocol handlers bad_response s)
            (\<lambda>failed. consumeResponse protocol handlers good_response (snd failed))
          = map_option (Pair (Inr True)) (broadcast handlers message' s)
       \<and> ((\<forall>h \<in> set (listeners s). handlers h message = []) \<longrightarrow>
            Option.bind (consumeRequest protocol handlers bad_request s)
              (\<lambda>failed. consumeRequest protocol handlers good_request (snd failed))
            = Some (Inr True, s\<lparr>delivered := delivered s @ map (\<lambda>h. (h, message)) (listeners s)\<rparr>))
       \<and> ((\<forall>h \<in> set (listeners s). handlers h message' = []) \<longrightarrow>
            Option.bind (consumeResponse protocol handlers bad_response s)
              (\<lambda>failed. consumeResponse protocol handlers good_response (snd failed))
            = Some (Inr True, s\<lparr>delivered := delivered s @ map (\<lambda>h. (h, message')) (listeners s)\<rparr>))"
proof -
  have bad1: "consumeRequest protocol handlers bad_request s = Some (Inl err, s)"
    using assms(1,2) by (simp add: consumeRequest_def)
  have bad2: "consumeResponse protocol handlers bad_response s = Some (Inl err', s)"
    using assms(3,4) by (simp add: consumeResponse_def)
  have good1: "consumeRequest protocol handlers good_request s
      = map_option (Pair (Inr True)) (broadcast handlers message s)"
    using assms(5,6) by (simp add: consumeRequest_def)
  have good2: "consumeResponse protocol handlers good_response s
      = map_option (Pair (Inr True)) (broadcast handlers message' s)"
    using assms(7,8) by (simp add: consumeResponse_def)
  show ?thesis
    by (simp add: bad1 bad2 good1 good2 broadcast_quiet)
qed

theorem malformed_payload_is_one_error_witness:
  "interfaceDefinition (operation garbled_request) = IPC
   \<and> deserialize choking (parameters garbled_request) = Inl SerializationError
   \<and> interfaceName garbled_response = IPC
   \<and> deserialize choking (result garbled_response) = Inl SerializationError
   \<and> interfaceDefinition (operation ping_request) = IPC
   \<and> deserialize choking (parameters ping_request) = Inr (Array (Message ping # []))
   \<and> interfaceName pong_response = IPC
   \<and> deserialize choking (result pong_response) = Inr (Message pong)
   \<and> listeners two_listeners = [0, 1]
   \<and> quiet 0 (Message ping) = [] \<and> quiet 1 (Message ping) = []
   \<and> quiet 0 (Message pong) = [] \<and> quiet 1 (Message pong) = []
   \<and> consumeRequest choking quiet garbled_request two_listeners
       = Some (Inl SerializationError, two_listeners)
   \<and> consumeResponse choking quiet garbled_response two_listeners
       = Some (Inl SerializationError, two_listeners)
   \<and> Option.bind (consumeRequest choking quiet garbled_request two_listeners)
        (\<lambda>failed. consumeRequest choking quiet ping_request (snd failed))
       = Some (Inr True, two_listeners\<lparr>delivered := [(0, Message ping), (1, Message ping)]\<rparr>)
   \<and> Option.bind (consumeResponse choking quiet garbled_response two_listeners)
        (\<lambda>failed. consumeResponse choking quiet pong_response (snd failed))
       = Some (Inr True, two_listeners\<lparr>delivered := [(0, Message pong), (1, Message pong)]\<rparr>)"
proof -
  have h1: "interfaceDefinition (operation garbled_request) = IPC"
    and h5: "interfaceDefinition (operation ping_request) = IPC"
    and h3: "interfaceName garbled_response = IPC"
    and h7: "interfaceName pong_response = IPC"
    by (simp_all add: garbled_request_def ping_request_def garbled_response_def
        pong_response_def IPC_def)
  have h2: "deserialize choking (parameters garbled_request) = Inl SerializationError"
    and h6: "deserialize choking (parameters ping_request) = Inr (Array (Message ping # []))"
    and h4: "deserialize choking (result garbled_response) = Inl SerializationError"
    and h8: "deserialize choking (result pong_response) = Inr (Message pong)"
    by (simp_all add: garbled_request_def ping_request_def garbled_response_def
        pong_response_def choking_def loopback_def)
  have q1: "\<forall>h \<in> set (listeners two_listeners). quiet h (Message ping) = []"
    and q2: "\<forall>h \<in> set (listeners two_listeners). quiet h (Message pong) = []"
    by (simp_all add: quiet_def)
  note all = malformed_payload_is_one_error
    [of garbled_request choking SerializationError garbled_response SerializationError
      ping_request "Message ping" "[]" pong_response "Message pong" quiet two_listeners,
      OF h1 h2 h3 h4 h5 h6 h7 h8]
  have after: "two_listeners\<lparr>delivered := delivered two_listeners
        @ map (\<lambda>h. (h, m)) (listeners two_listeners)\<rparr>
      = two_listeners\<lparr>delivered := [(0, m), (1, m)]\<rparr>" for m :: "string val"
    by (simp add: two_listeners_eq)
  note c1 = all [THEN conjunct1]
  note c2 = all [THEN conjunct2, THEN conjunct1]
  note c5 = all [THEN conjunct2, THEN conjunct2, THEN conjunct2, THEN conjunct2, THEN conjunct1,
      THEN mp, OF q1, unfolded after]
  note c6 = all [THEN conjunct2, THEN conjunct2, THEN conjunct2, THEN conjunct2, THEN conjunct2,
      THEN mp, OF q2, unfolded after]
  have q: "quiet h m = []" for h m
    by (simp add: quiet_def)
  have ls: "listeners two_listeners = [0, 1]"
    by (simp add: two_listeners_eq)
  show ?thesis
    by (intro conjI h1 h2 h3 h4 h5 h6 h7 h8 ls q c1 c2 c5 c6)
qed

subsection \<open>Fan-out to the listeners\<close>

text \<open>
  Claim C4, as the code has it. Let \<open>N\<close> listeners \<open>hs\<close> be registered by \<open>listen\<close>, in
  that order, on a new instance, and let none of them register a listener when it is handed
  the message. Then handling one inbound envelope addressed to \<open>__ipc__\<close>, whether it
  arrives as a request or as a fulfillment, returns \<open>true\<close> having made exactly \<open>N\<close>
  listener calls, one for each registered listener, in the order of registration, each
  with the same message; the calls are made before the handling returns.
\<close>

theorem fan_out_to_listeners:
  fixes protocol :: "('p, 'w, 'b) MobileRpcProtocol"
  assumes "s = fold listen hs new_MobileIpcTransport"
    and "\<forall>h \<in> set hs. handlers h message = []"
  shows "(interfaceDefinition (operation request) = IPC
          \<and> deserialize protocol (parameters request) = Inr (Array (message # rest)) \<longrightarrow>
            consumeRequest protocol handlers request s
            = Some (Inr True, s\<lparr>delivered := map (\<lambda>h. (h, message)) hs\<rparr>))
       \<and> (interfaceName response = IPC \<and> deserialize protocol (result response) = Inr message \<longrightarrow>
            consumeResponse protocol handlers response s
            = Some (Inr True, s\<lparr>delivered := map (\<lambda>h. (h, message)) hs\<rparr>))"
proof -
  have ls: "listeners s = hs" and dl: "delivered s = []"
    using assms(1) by (simp_all add: fold_listen new_MobileIpcTransport_def)
  have "\<forall>h \<in> set (listeners s). handlers h message = []"
    using assms(2) by (simp only: ls)
  then have "broadcast handlers message s = Some (s\<lparr>delivered := map (\<lambda>h. (h, message)) hs\<rparr>)"
    by (simp add: broadcast_quiet ls dl)
  then show ?thesis
    by (simp add: consumeRequest_def consumeResponse_def)
qed

theorem fan_out_to_listeners_witness:
  "two_listeners = fold listen [0, 1] new_MobileIpcTransport
   \<and> quiet 0 (Message ping) = [] \<and> quiet 1 (Message ping) = []
   \<and> quiet 0 (Message pong) = [] \<and> quiet 1 (Message pong) = []
   \<and> interfaceDefinition (operation ping_request) = IPC
   \<and> deserialize intact (parameters ping_request) = Inr (Array (Message ping # []))
   \<and> consumeRequest intact quiet ping_request two_listeners
       = Some (Inr True, two_listeners\<lparr>delivered := [(0, Message ping), (1, Message ping)]\<rparr>)
   \<and> interfaceName pong_response = IPC
   \<and> deserialize intact (result pong_response) = Inr (Message pong)
   \<and> consumeResponse intact quiet pong_response two_listeners
       = Some (Inr True, two_listeners\<lparr>delivered := [(0, Message pong), (1, Message pong)]\<rparr>)"
proof -
  have reg: "two_listeners = fold listen [0, 1] new_MobileIpcTransport"
    by (simp add: two_listeners_def)
  have q1: "\<forall>h \<in> set [0, 1]. quiet h (Message ping) = []"
    and q2: "\<forall>h \<in> set [0, 1]. quiet h (Message pong) = []"
    by (simp_all add: quiet_def)
  have a1: "interfaceDefinition (operation ping_request) = IPC"
    and a2: "deserialize intact (parameters ping_request) = Inr (Array (Message ping # []))"
    and b1: "interfaceName pong_response = IPC"
    and b2: "deserialize intact (result pong_response) = Inr (Message pong)"
    by (simp_all add: ping_request_def pong_response_def IPC_def intact_def loopback_def)
  note as_request = fan_out_to_listeners
    [of two_listeners "[0, 1]" quiet "Message ping" ping_request intact "[]" pong_response,
      OF reg q1, THEN conjunct1, THEN mp, OF conjI [OF a1 a2], unfolded list.map]
  note as_response = fan_out_to_listeners
    [of two_listeners "[0, 1]" quiet "Message pong" ping_request intact "[]" pong_response,
      OF reg q2, THEN conjunct2, THEN mp, OF conjI [OF b1 b2], unfolded list.map]
  have q: "quiet h m = []" for h m
    by (simp add: quiet_def)
  show ?thesis
    by (intro conjI reg q a1 a2 b1 b2 as_request as_response)
qed

text \<open>
  The claim as the spec has it fails: one listener is registered before the envelope
  arrives, the listener registers listener 2 when it is called, and two calls are made.
\<close>

theorem fan_out_counterexample:
  "listeners one_listener = [0]
   \<and> consumeRequest intact newcomer ping_request one_listener
     = Some (Inr True, \<lparr>listeners = [0, 2], toBackend = [], toFrontend = [],
                        delivered = [(0, Message ping), (2, Message ping)]\<rparr>)
   \<and> length [(0 :: nat, Message ping), (2, Message ping)] \<noteq> length (listeners one_listener)"
  by (simp add: consumeRequest_def ping_request_def intact_def loopback_def broadcast_def
      broadcast_loop.simps call_listener_eq newcomer_def one_listener_eq IPC_def)

subsection \<open>Listeners registered during a dispatch\<close>

text \<open>
  The loop after \<open>k\<close> listener calls: the index is \<open>i + k\<close> unless the end of the list
  was reached before, the list has only been appended to, and the listeners between the
  starting index and the index now have been called with the message, in order.
\<close>

lemma steps_done:
  "\<not> i < length (listeners s) \<Longrightarrow> broadcast_steps k handlers m i s = (i, s)"
  by (cases k) simp_all

lemma steps_add:
  "broadcast_steps (k + l) handlers m i s =
     (case broadcast_steps k handlers m i s of (i', t) \<Rightarrow> broadcast_steps l handlers m i' t)"
proof (induction k arbitrary: i s)
  case 0
  show ?case by simp
next
  case (Suc k)
  show ?case
    by (cases "i < length (listeners s)") (simp_all add: Suc.IH steps_done)
qed

lemma steps_inv:
  assumes "i \<le> length (listeners s)" and "broadcast_steps k handlers m i s = (i', t)"
  shows "i' = min (i + k) (length (listeners t))
       \<and> (\<exists>zs. listeners t = listeners s @ zs)
       \<and> delivered t = delivered s @ map (\<lambda>h. (h, m)) (take (i' - i) (drop i (listeners t)))
       \<and> listeners t = listeners s
             @ concat (map (\<lambda>h. handlers h m) (take (i' - i) (drop i (listeners t))))
       \<and> toBackend t = toBackend s \<and> toFrontend t = toFrontend s"
  using assms
proof (induction k arbitrary: i s)
  case 0
  then show ?case by simp
next
  case (Suc k)
  show ?case
  proof (cases "i < length (listeners s)")
    case False
    with Suc.prems have "i' = i" "t = s" "i = length (listeners s)"
      by auto
    then show ?thesis by simp
  next
    case True
    let ?h = "listeners s ! i"
    let ?s1 = "call_listener handlers ?h m s"
    have run: "broadcast_steps k handlers m (Suc i) ?s1 = (i', t)"
      using Suc.prems(2) True by simp
    have le1: "Suc i \<le> length (listeners ?s1)"
      using True by (simp add: call_listener_eq)
    from Suc.IH [OF le1 run] obtain zs where
      i': "i' = min (Suc i + k) (length (listeners t))"
      and lt: "listeners t = listeners ?s1 @ zs"
      and dt: "delivered t = delivered ?s1 @ map (\<lambda>h. (h, m)) (take (i' - Suc i) (drop (Suc i) (listeners t)))"
      and rt: "listeners t = listeners ?s1
          @ concat (map (\<lambda>h. handlers h m) (take (i' - Suc i) (drop (Suc i) (listeners t))))"
      and rest: "toBackend t = toBackend ?s1" "toFrontend t = toFrontend ?s1"
      by blast
    have lt': "listeners t = listeners s @ (handlers ?h m @ zs)"
      using lt by (simp add: call_listener_eq)
    have len: "i < length (listeners t)"
      using True lt' by simp
    have at: "listeners t ! i = ?h"
      using True lt' by (simp add: nth_append)
    have ge: "Suc i \<le> i'"
      using i' len by simp
    have tk: "take (i' - i) (drop i (listeners t)) = ?h # take (i' - Suc i) (drop (Suc i) (listeners t))"
    proof -
      have "drop i (listeners t) = ?h # drop (Suc i) (listeners t)"
        using len at by (metis Cons_nth_drop_Suc)
      moreover have "i' - i = Suc (i' - Suc i)"
        using ge by simp
      ultimately show ?thesis by simp
    qed
    have "delivered t = delivered s @ map (\<lambda>h. (h, m)) (take (i' - i) (drop i (listeners t)))"
      using dt by (simp add: tk call_listener_eq)
    moreover have "listeners t = listeners s
        @ concat (map (\<lambda>h. handlers h m) (take (i' - i) (drop i (listeners t))))"
      using rt unfolding tk by (simp add: call_listener_eq)
    moreover have "i' = min (i + Suc k) (length (listeners t))"
      using i' by simp
    moreover have "\<exists>zs. listeners t = listeners s @ zs"
      using lt' by blast
    ultimately show ?thesis
      using rest by (simp add: call_listener_eq)
  qed
qed

lemma steps_finished:
  "broadcast_steps k handlers m i s = (i', t) \<Longrightarrow> \<not> i' < length (listeners t) \<Longrightarrow>
   broadcast_loop handlers m i s = Some t"
proof (induction k arbitrary: i s)
  case 0
  then show ?case by (subst broadcast_loop.simps) simp
next
  case (Suc k)
  show ?case
  proof (cases "i < length (listeners s)")
    case True
    with Suc.prems have "broadcast_steps k handlers m (Suc i) (call_listener handlers (listeners s ! i) m s) = (i', t)"
      by simp
    from Suc.IH [OF this Suc.prems(2)] True show ?thesis
      by (subst broadcast_loop.simps) simp
  next
    case False
    with Suc.prems show ?thesis by (subst broadcast_loop.simps) simp
  qed
qed

lemma loop_steps:
  assumes "broadcast_loop handlers m i s = Some s'"
  shows "\<exists>k i'. broadcast_steps k handlers m i s = (i', s') \<and> \<not> i' < length (listeners s')"
proof (rule broadcast_loop.raw_induct
    [where P = "\<lambda>handlers m i s s'. \<exists>k i'. broadcast_steps k handlers m i s = (i', s')
        \<and> \<not> i' < length (listeners s')", OF _ assms])
  fix loop :: "'a handlers \<Rightarrow> 'a val \<Rightarrow> nat \<Rightarrow> ('a, 'b) MobileIpcTransport \<Rightarrow> ('a, 'b) MobileIpcTransport option"
  fix handlers m i s s'
  assume IH: "\<And>handlers m i s s'. loop handlers m i s = Some s' \<Longrightarrow>
      \<exists>k i'. broadcast_steps k handlers m i s = (i', s') \<and> \<not> i' < length (listeners s')"
  assume eq: "(if i < length (listeners s)
      then loop handlers m (Suc i) (call_listener handlers (listeners s ! i) m s)
      else Some s) = Some s'"
  show "\<exists>k i'. broadcast_steps k handlers m i s = (i', s') \<and> \<not> i' < length (listeners s')"
  proof (cases "i < length (listeners s)")
    case True
    with eq have "loop handlers m (Suc i) (call_listener handlers (listeners s ! i) m s) = Some s'"
      by simp
    from IH [OF this] obtain k i' where
      "broadcast_steps k handlers m (Suc i) (call_listener handlers (listeners s ! i) m s) = (i', s')"
      "\<not> i' < length (listeners s')"
      by blast
    with True have "broadcast_steps (Suc k) handlers m i s = (i', s') \<and> \<not> i' < length (listeners s')"
      by simp
    then show ?thesis by blast
  next
    case False
    with eq have "broadcast_steps 0 handlers m i s = (i, s') \<and> \<not> i < length (listeners s')"
      by simp
    then show ?thesis by blast
  qed
qed


text \<open>
  Whatever listener stands at position \<open>j\<close> of the list at some moment of a dispatch, the
  loop gets to it: after \<open>j + 1\<close> listener calls the index is \<open>j + 1\<close>.
\<close>

lemma steps_reach:
  assumes run: "broadcast_steps k handlers m 0 s = (i, t)" and j: "j < length (listeners t)"
  shows "\<exists>t'. broadcast_steps (Suc j) handlers m 0 s = (Suc j, t')
      \<and> delivered t' = delivered s @ map (\<lambda>h. (h, m)) (take (Suc j) (listeners t))"
proof -
  obtain i1 t1 where run1: "broadcast_steps (Suc j) handlers m 0 s = (i1, t1)"
    by (cases "broadcast_steps (Suc j) handlers m 0 s") blast
  from steps_inv [OF _ run1] have i1: "i1 = min (Suc j) (length (listeners t1))"
    and d1: "delivered t1 = delivered s @ map (\<lambda>h. (h, m)) (take i1 (listeners t1))"
    by simp_all
  from steps_inv [OF _ run] have i: "i \<le> length (listeners t)"
    by simp
  have "i1 = Suc j \<and> take (Suc j) (listeners t1) = take (Suc j) (listeners t)"
  proof (cases "k \<le> Suc j")
    case True
    then obtain l where l: "Suc j = k + l"
      using le_Suc_ex by blast
    have "broadcast_steps l handlers m i t = (i1, t1)"
      using steps_add [of k l handlers m 0 s] run run1 l by simp
    from steps_inv [OF i this] obtain zs where "listeners t1 = listeners t @ zs"
      by blast
    with j i1 show ?thesis by simp
  next
    case False
    then obtain l where l: "k = Suc j + l"
      using le_Suc_ex [of "Suc j" k] by auto
    have again: "broadcast_steps l handlers m i1 t1 = (i, t)"
      using steps_add [of "Suc j" l handlers m 0 s] run run1 l by simp
    show ?thesis
    proof (cases "i1 < length (listeners t1)")
      case True
      with i1 have "i1 = Suc j" by simp
      moreover from steps_inv [OF _ again] True obtain zs where "listeners t = listeners t1 @ zs"
        by auto
      ultimately show ?thesis using True by simp
    next
      case False
      with again have "t = t1"
        by (simp add: steps_done)
      with False i1 j show ?thesis by simp
    qed
  qed
  with run1 d1 show ?thesis by simp
qed

lemma settles_mono: "settles n handlers m h \<Longrightarrow> settles (Suc n) handlers m h"
proof (induction n arbitrary: h)
  case 0
  then show ?case by simp
next
  case (Suc n)
  from Suc.prems have "\<forall>h' \<in> set (handlers h m). settles n handlers m h'"
    by simp
  then have "\<forall>h' \<in> set (handlers h m). settles (Suc n) handlers m h'"
    using Suc.IH by blast
  then show ?case
    by (subst settles.simps(2))
qed

lemma settles_children:
  assumes "settles n handlers m h"
  shows "\<forall>h' \<in> set (handlers h m). settles n handlers m h'"
proof (cases n)
  case 0
  with assms show ?thesis by simp
next
  case (Suc n')
  with assms have "\<forall>h' \<in> set (handlers h m). settles n' handlers m h'"
    by simp
  then show ?thesis
    unfolding Suc using settles_mono by blast
qed

lemma calls_stable:
  "settles n handlers m h \<Longrightarrow> calls_within (Suc n) handlers m h = calls_within n handlers m h"
proof (induction n arbitrary: h)
  case 0
  then show ?case by simp
next
  case (Suc n)
  from Suc.prems have kids: "\<forall>h' \<in> set (handlers h m). settles n handlers m h'"
    by simp
  have "map (calls_within (Suc n) handlers m) (handlers h m) = map (calls_within n handlers m) (handlers h m)"
  proof (rule map_cong [OF refl])
    fix h' assume "h' \<in> set (handlers h m)"
    with kids have "settles n handlers m h'" by blast
    then show "calls_within (Suc n) handlers m h' = calls_within n handlers m h'"
      by (rule Suc.IH)
  qed
  then have "sum_list (map (calls_within (Suc n) handlers m) (handlers h m))
      = sum_list (map (calls_within n handlers m) (handlers h m))"
    by (rule arg_cong)
  then show ?case
    by (simp only: calls_within.simps(2) [of "Suc n"] calls_within.simps(2) [of n])
qed

lemma calls_children:
  assumes "settles n handlers m h"
  shows "calls_within n handlers m h = Suc (sum_list (map (calls_within n handlers m) (handlers h m)))"
proof (cases n)
  case 0
  with assms show ?thesis by simp
next
  case (Suc n')
  with assms have kids: "\<forall>h' \<in> set (handlers h m). settles n' handlers m h'"
    by simp
  have "map (calls_within (Suc n') handlers m) (handlers h m) = map (calls_within n' handlers m) (handlers h m)"
  proof (rule map_cong [OF refl])
    fix h' assume "h' \<in> set (handlers h m)"
    with kids have "settles n' handlers m h'" by blast
    then show "calls_within (Suc n') handlers m h' = calls_within n' handlers m h'"
      by (rule calls_stable)
  qed
  then have "sum_list (map (calls_within (Suc n') handlers m) (handlers h m))
      = sum_list (map (calls_within n' handlers m) (handlers h m))"
    by (rule arg_cong)
  then show ?thesis
    unfolding Suc by (simp only: calls_within.simps(2) [of n'])
qed

lemma broadcast_loop_returns:
  fixes s :: "('p, 'b) MobileIpcTransport"
  assumes "\<forall>h \<in> set (drop i (listeners s)). settles n handlers m h"
  shows "\<exists>s'. broadcast_loop handlers m i s = Some s'"
  using assms
proof (induction "sum_list (map (calls_within n handlers m) (drop i (listeners s)))" arbitrary: i s rule: less_induct)
  case less
  show ?case
  proof (cases "i < length (listeners s)")
    case False
    then show ?thesis
      by (subst broadcast_loop.simps) simp
  next
    case True
    let ?h = "listeners s ! i"
    let ?rest = "drop (Suc i) (listeners s)"
    let ?s1 = "call_listener handlers ?h m s"
    have dr: "drop i (listeners s) = ?h # ?rest"
      using True by (simp add: Cons_nth_drop_Suc)
    have dr1: "drop (Suc i) (listeners ?s1) = ?rest @ handlers ?h m"
      using True by (simp add: call_listener_eq)
    have h: "settles n handlers m ?h"
      using less.prems dr by simp
    have hyp1: "\<forall>h \<in> set (drop (Suc i) (listeners ?s1)). settles n handlers m h"
      using less.prems settles_children [OF h] by (auto simp: dr1 dr)
    have meas: "sum_list (map (calls_within n handlers m) (drop (Suc i) (listeners ?s1)))
        < sum_list (map (calls_within n handlers m) (drop i (listeners s)))"
      unfolding dr1 dr using calls_children [OF h] by simp
    from less.hyps [OF meas hyp1] True show ?thesis
      by (subst broadcast_loop.simps) simp
  qed
qed


text \<open>
  Claim C8, as the code has it. A listener registered from inside a listener, during a
  dispatch, at whatever depth of nesting, is appended to the array that the loop is walking,
  and the loop reaches it: whatever listener stands at position \<open>j\<close> of the list after
  some number \<open>k\<close> of listener calls of the dispatch, registered before the dispatch or
  during it, the dispatch makes \<open>j + 1\<close> calls, and these hand the message to the
  listeners at positions \<open>0\<close> to \<open>j\<close> of that list, in order, so to that listener after
  every listener standing before it. This holds also for a dispatch that never returns.
  A dispatch returns exactly when the index reaches the end of the list; the list it leaves
  is the list before followed by the registrations of the listeners called, in the order of
  the calls, and the message has been handed to every listener of the list it leaves, once
  for each place in the list, in order. The listener stays in the list: a later
  dispatch, from a state whose list begins with the list left, hands the later message to
  every listener of its own final list, which begins with that list too. When the
  registrations of the listeners in the list nest to a bounded depth, the dispatch
  returns.
\<close>

theorem broadcast_reaches_newcomers:
  fixes s s' s'' t u :: "('p, 'b) MobileIpcTransport"
  shows
  "(broadcast_steps k handlers message 0 s = (i, t) \<longrightarrow> j < length (listeners t) \<longrightarrow>
      (\<exists>t'. broadcast_steps (Suc j) handlers message 0 s = (Suc j, t')
          \<and> delivered t' = delivered s @ map (\<lambda>h. (h, message)) (take (Suc j) (listeners t))))
   \<and> (broadcast_steps k handlers message 0 s = (i, t) \<longrightarrow> \<not> i < length (listeners t) \<longrightarrow>
        broadcast handlers message s = Some t)
   \<and> (broadcast handlers message s = Some s' \<longrightarrow>
        (\<exists>k. broadcast_steps k handlers message 0 s = (length (listeners s'), s'))
        \<and> listeners s' = listeners s @ concat (map (\<lambda>h. handlers h message) (listeners s'))
        \<and> delivered s' = delivered s @ map (\<lambda>h. (h, message)) (listeners s'))
   \<and> (listeners u = listeners s' @ extra \<longrightarrow> broadcast handlers later u = Some s'' \<longrightarrow>
        (\<exists>zs. listeners s'' = listeners s' @ zs)
        \<and> delivered s'' = delivered u @ map (\<lambda>h. (h, later)) (listeners s''))
   \<and> ((\<forall>h \<in> set (listeners s). settles n handlers message h) \<longrightarrow>
        (\<exists>s'. broadcast handlers message s = Some s'))"
proof -
  have returned: "(\<exists>k. broadcast_steps k handlers m 0 a = (length (listeners b), b))
        \<and> (\<exists>zs. listeners b = listeners a @ zs)
        \<and> listeners b = listeners a @ concat (map (\<lambda>h. handlers h m) (listeners b))
        \<and> delivered b = delivered a @ map (\<lambda>h. (h, m)) (listeners b)"
    if "broadcast handlers m a = Some b" for m and a b :: "('p, 'b) MobileIpcTransport"
  proof -
    from that obtain k i' where run: "broadcast_steps k handlers m 0 a = (i', b)"
      and fin: "\<not> i' < length (listeners b)"
      unfolding broadcast_def by (blast dest: loop_steps)
    have "0 \<le> length (listeners a)" by simp
    note inv0 = steps_inv [OF this run, unfolded diff_zero drop_0 add_0]
    note inv = inv0 [THEN conjunct1] inv0 [THEN conjunct2, THEN conjunct1]
      inv0 [THEN conjunct2, THEN conjunct2, THEN conjunct1]
      inv0 [THEN conjunct2, THEN conjunct2, THEN conjunct2, THEN conjunct1]
    from inv(1) fin have stop: "i' = length (listeners b)" by simp
    have "take i' (listeners b) = listeners b"
      using stop by simp
    with inv(3,4) have "delivered b = delivered a @ map (\<lambda>h. (h, m)) (listeners b)"
      and "listeners b = listeners a @ concat (map (\<lambda>h. handlers h m) (listeners b))"
      by (simp_all only:)
    moreover from run stop have "\<exists>k. broadcast_steps k handlers m 0 a = (length (listeners b), b)"
      by blast
    ultimately show ?thesis using inv(2) by (intro conjI)
  qed
  have 1: "broadcast_steps k handlers message 0 s = (i, t) \<longrightarrow> j < length (listeners t) \<longrightarrow>
      (\<exists>t'. broadcast_steps (Suc j) handlers message 0 s = (Suc j, t')
          \<and> delivered t' = delivered s @ map (\<lambda>h. (h, message)) (take (Suc j) (listeners t)))"
    by (blast dest: steps_reach)
  have 2: "broadcast_steps k handlers message 0 s = (i, t) \<longrightarrow> \<not> i < length (listeners t) \<longrightarrow>
        broadcast handlers message s = Some t"
    unfolding broadcast_def by (blast dest: steps_finished)
  have 3: "broadcast handlers message s = Some s' \<longrightarrow>
        (\<exists>k. broadcast_steps k handlers message 0 s = (length (listeners s'), s'))
        \<and> listeners s' = listeners s @ concat (map (\<lambda>h. handlers h message) (listeners s'))
        \<and> delivered s' = delivered s @ map (\<lambda>h. (h, message)) (listeners s')"
    using returned [of message s s'] by blast
  have 4: "listeners u = listeners s' @ extra \<longrightarrow> broadcast handlers later u = Some s'' \<longrightarrow>
        (\<exists>zs. listeners s'' = listeners s' @ zs)
        \<and> delivered s'' = delivered u @ map (\<lambda>h. (h, later)) (listeners s'')"
  proof (intro impI)
    assume u: "listeners u = listeners s' @ extra" and "broadcast handlers later u = Some s''"
    from returned [OF this(2)] obtain zs where "listeners s'' = listeners u @ zs"
      and d: "delivered s'' = delivered u @ map (\<lambda>h. (h, later)) (listeners s'')"
      by blast
    with u have "listeners s'' = listeners s' @ (extra @ zs)" by simp
    with d show "(\<exists>zs. listeners s'' = listeners s' @ zs)
        \<and> delivered s'' = delivered u @ map (\<lambda>h. (h, later)) (listeners s'')"
      by blast
  qed
  have 5: "(\<forall>h \<in> set (listeners s). settles n handlers message h) \<longrightarrow>
        (\<exists>s'. broadcast handlers message s = Some s')"
    unfolding broadcast_def using broadcast_loop_returns [of 0 s n handlers message] by simp
  from 1 2 3 4 5 show ?thesis by (intro conjI)
qed

text \<open>
  Two listeners are registered; listener 0 registers listener 2, which registers listener
  3. After the first call listener 2 stands at position 2, and the third call is its own;
  after four calls the dispatch returns, all four having received \<open>ping\<close>; the dispatch of
  \<open>pong\<close> that follows reaches them again, and the listeners they register again.
\<close>

theorem broadcast_reaches_newcomers_witness:
  "broadcast_steps 1 chain (Message ping) 0 two_listeners
     = (1, two_listeners\<lparr>listeners := [0, 1, 2], delivered := [(0, Message ping)]\<rparr>)
   \<and> 2 < length (listeners (two_listeners\<lparr>listeners := [0, 1, 2], delivered := [(0, Message ping)]\<rparr>))
   \<and> (\<exists>t'. broadcast_steps (Suc 2) chain (Message ping) 0 two_listeners = (Suc 2, t')
         \<and> delivered t' = [(0, Message ping), (1, Message ping), (2, Message ping)])
   \<and> broadcast_steps 4 chain (Message ping) 0 two_listeners = (4, after_ping)
   \<and> \<not> 4 < length (listeners after_ping)
   \<and> broadcast chain (Message ping) two_listeners = Some after_ping
   \<and> settles 2 chain (Message ping) 0 \<and> settles 2 chain (Message ping) 1
   \<and> (\<exists>s'. broadcast chain (Message ping) two_listeners = Some s')
   \<and> broadcast chain (Message pong) after_ping = Some after_pong
   \<and> listeners after_pong = listeners after_ping @ [2, 3, 3]
   \<and> delivered after_pong
       = delivered after_ping @ map (\<lambda>h. (h, Message pong)) (listeners after_pong)"
proof -
  let ?t = "two_listeners\<lparr>listeners := [0, 1, 2], delivered := [(0, Message ping)]\<rparr>"
  have one: "broadcast_steps 1 chain (Message ping) 0 two_listeners = (1, ?t)"
    by (simp add: two_listeners_eq call_listener_eq chain_def)
  have pos: "2 < length (listeners ?t)"
    by simp
  have four: "broadcast_steps 4 chain (Message ping) 0 two_listeners = (4, after_ping)"
    by (simp add: two_listeners_eq call_listener_eq chain_def after_ping_def eval_nat_numeral)
  have fin: "\<not> 4 < length (listeners after_ping)"
    by (simp add: after_ping_def)
  have depth: "settles 2 chain (Message ping) 0" "settles 2 chain (Message ping) 1"
    by (simp_all add: chain_def eval_nat_numeral)
  then have all: "\<forall>h \<in> set (listeners two_listeners). settles 2 chain (Message ping) h"
    by (simp add: two_listeners_eq)
  have again: "broadcast chain (Message pong) after_ping = Some after_pong"
    by (simp add: broadcast_def broadcast_loop.simps call_listener_eq chain_def
        after_ping_def after_pong_def)
  have grown: "listeners after_pong = listeners after_ping @ [2, 3, 3]"
    by (simp add: after_ping_def after_pong_def)
  have start: "delivered two_listeners @ map (\<lambda>h. (h, Message ping)) (take (Suc 2) (listeners ?t))
      = [(0, Message ping), (1, Message ping), (2, Message ping)]"
    by (simp add: two_listeners_eq eval_nat_numeral)
  note inst = broadcast_reaches_newcomers
    [of 1 chain "Message ping" two_listeners 1 ?t 2 after_ping after_ping "[]"
      "Message pong" after_pong 2]
  note reach = inst [THEN conjunct1, THEN mp, OF one, THEN mp, OF pos, unfolded start]
  note returns = broadcast_reaches_newcomers
    [of 4 chain "Message ping" two_listeners 4 after_ping,
      THEN conjunct2, THEN conjunct1, THEN mp, OF four, THEN mp, OF fin]
  have same: "listeners after_ping = listeners after_ping @ []"
    by simp
  note later = inst [THEN conjunct2, THEN conjunct2, THEN conjunct2, THEN conjunct1,
      THEN mp, OF same, THEN mp, OF again, THEN conjunct2]
  note total = inst [THEN conjunct2, THEN conjunct2, THEN conjunct2, THEN conjunct2,
      THEN mp, OF all]
  show ?thesis
    by (intro conjI one pos reach four fin returns depth total again grown later)
qed

text \<open>
  The claim as the spec has it fails: listener 2 is not registered when \<open>pong\<close> arrives,
  listener 0 registers it during the dispatch, and listener 2 receives \<open>pong\<close> in that
  same dispatch.
\<close>

theorem newcomer_receives_current_message:
  "2 \<notin> set (listeners two_listeners)
   \<and> newcomer 0 (Message pong) = [2]
   \<and> consumeResponse intact newcomer pong_response two_listeners
     = Some (Inr True, \<lparr>listeners = [0, 1, 2], toBackend = [], toFrontend = [],
                        delivered = [(0, Message pong), (1, Message pong), (2, Message pong)]\<rparr>)"
  by (simp add: consumeResponse_def intact_def loopback_def broadcast_def two_listeners_eq
      broadcast_loop.simps call_listener_eq newcomer_def pong_response_def IPC_def)

subsection \<open>The listener list only grows\<close>

lemma send_keeps_listeners: "listeners (snd (send protocol message s)) = listeners s"
  by (cases "encodeRequest protocol (MobileRpcRequest IpcInterface_interfaceName ''send'' [Message message])";
      cases "serialize protocol (Message message)")
     (simp_all add: send_def sendToBackend_def sendToFrontend_def)

lemma perform_appends:
  assumes "perform protocol handlers c s = Some s'"
  shows "\<exists>zs. listeners s' = listeners s @ zs"
proof (cases c)
  case (CallSend message)
  with assms show ?thesis by (auto simp: send_keeps_listeners)
next
  case (CallListen handler)
  with assms show ?thesis by (auto simp: listen_def)
next
  case (CallConsumeRequest request)
  with assms show ?thesis
    by (auto simp: consumeRequest_def broadcast_def split: if_splits sum.splits
        dest: broadcast_loop_appends)
next
  case (CallConsumeResponse response)
  with assms show ?thesis
    by (auto simp: consumeResponse_def broadcast_def split: if_splits sum.splits
        dest: broadcast_loop_appends)
qed

text \<open>
  Claim C9. Whatever sequence of calls of \<open>send\<close>, \<open>listen\<close>, \<open>consumeRequest\<close> and
  \<open>consumeResponse\<close> is made on an instance, and whatever the listeners register while
  they are called, the listener list afterwards is the list before with listeners appended
  at its end (possibly none): no listener is removed and none changes place. The class has
  no other public method, so none that removes a listener.
\<close>

theorem listeners_append_only:
  "perform_all protocol handlers calls s = Some s' \<Longrightarrow> \<exists>zs. listeners s' = listeners s @ zs"
proof (induction calls arbitrary: s)
  case Nil
  then show ?case by simp
next
  case (Cons c calls)
  then obtain s1 where 1: "perform protocol handlers c s = Some s1"
    and 2: "perform_all protocol handlers calls s1 = Some s'"
    by (auto split: option.splits)
  from perform_appends [OF 1] Cons.IH [OF 2] show ?case by auto
qed

theorem listeners_append_only_witness:
  "perform_all intact newcomer
     [CallListen 0, CallConsumeRequest ping_request, CallSend ping, CallListen 1,
      CallConsumeResponse pong_response]
     no_listeners
   = Some \<lparr>listeners = [0, 2, 1, 2],
           toBackend = [WireRequest ping_request],
           toFrontend = [],
           delivered = [(0, Message ping), (2, Message ping),
                        (0, Message pong), (2, Message pong), (1, Message pong), (2, Message pong)]\<rparr>
   \<and> (\<exists>zs. [0, 2, 1, 2] = listeners no_listeners @ zs)"
proof -
  have run: "perform_all intact newcomer
     [CallListen 0, CallConsumeRequest ping_request, CallSend ping, CallListen 1,
      CallConsumeResponse pong_response]
     no_listeners
   = Some \<lparr>listeners = [0, 2, 1, 2],
           toBackend = [WireRequest ping_request],
           toFrontend = [],
           delivered = [(0, Message ping), (2, Message ping),
                        (0, Message pong), (2, Message pong), (1, Message pong), (2, Message pong)]\<rparr>"
    by (simp add: consumeRequest_def consumeResponse_def ping_request_def pong_response_def
        intact_def loopback_def broadcast_def broadcast_loop.simps call_listener_eq newcomer_def
        listen_def no_listeners_eq send_def sendToBackend_def ping_def
        IpcInterface_interfaceName_def IPC_def)
  from listeners_append_only [OF run]
  have "\<exists>zs. [0, 2, 1, 2] = listeners no_listeners @ zs"
    by simp
  with run show ?thesis
    by (intro conjI)
qed

end
